theory Spec2Isabelle
  imports Main "HOL-Library.Log_Nat"
begin

section \<open>Python values used by \<open>colored_term.py\<close>\<close>

text \<open>
  A Python \<open>str\<close> is a sequence of Unicode code points, and iterating over it yields one
  code point at a time. The filled block used for the bars (U+2588) does not fit in a
  byte, so a string is modelled as the list of its code points.
\<close>

type_synonym pystr = "nat list"

definition ord :: "char \<Rightarrow> nat" where
  "ord c = of_char c"

definition str :: "string \<Rightarrow> pystr" where
  "str s = map ord s"

datatype error = ZeroDivisionError | OverflowError | KeyError

subsection \<open>Dictionaries in insertion order\<close>

text \<open>
  \<open>colors_used\<close> is a \<open>dict\<close> from escape sequence to count. Iteration follows insertion
  order, which \<open>build_color_stats\<close> depends on, so it is an association list.
  \<open>d[k]\<close> raises \<open>KeyError\<close> on a missing key; \<open>d[k] = v\<close> keeps the position of a key
  that is present and appends a new one.
\<close>

type_synonym colors_dict = "(pystr \<times> int) list"

definition dict_get :: "colors_dict \<Rightarrow> pystr \<Rightarrow> error + int" where
  "dict_get d k = (case map_of d k of None \<Rightarrow> Inl KeyError | Some v \<Rightarrow> Inr v)"

fun dict_set :: "colors_dict \<Rightarrow> pystr \<Rightarrow> int \<Rightarrow> colors_dict" where
  "dict_set [] k v = [(k, v)]"
| "dict_set ((k', v') # d) k v = (if k' = k then (k, v) # d else (k', v') # dict_set d k v)"

text \<open>\<open>d[k] += n\<close> reads \<open>d[k]\<close> and then stores the sum.\<close>

definition dict_iadd :: "colors_dict \<Rightarrow> pystr \<Rightarrow> int \<Rightarrow> error + colors_dict" where
  "dict_iadd d k n = (case dict_get d k of Inl e \<Rightarrow> Inl e | Inr v \<Rightarrow> Inr (dict_set d k (v + n)))"

subsection \<open>Floating point: \<open>int(count / total * 50)\<close>\<close>

text \<open>
  \<open>count / total\<close> on two Python ints is true division: it raises
  \<open>ZeroDivisionError\<close> for a zero divisor and otherwise returns the binary64 number
  nearest to the exact quotient (ties to even), or raises \<open>OverflowError\<close> when that is
  out of range. The product with \<open>50\<close> is rounded to binary64 again, and \<open>int\<close>
  truncates towards zero (and raises \<open>OverflowError\<close> on an infinity). A finite binary64
  value is modelled by the rational it denotes; \<open>None\<close> stands for an infinity.
\<close>

definition round_half_even :: "rat \<Rightarrow> int" where
  "round_half_even q =
     (let f = \<lfloor>q\<rfloor>; r = q - of_int f
      in if r < 1 / 2 then f else if 1 / 2 < r then f + 1 else if even f then f else f + 1)"

text \<open>The exponent \<open>e\<close> with \<open>2^e \<le> q < 2^(e+1)\<close>, for \<open>q > 0\<close>.\<close>

definition float_exponent :: "rat \<Rightarrow> int" where
  "float_exponent q = (if 1 \<le> q then bitlen \<lfloor>q\<rfloor> - 1 else - bitlen (\<lceil>1 / q\<rceil> - 1))"

text \<open>
  Rounding to binary64: 53 significant bits, the exponent no smaller than \<open>-1022\<close>
  (below that the spacing stays \<open>2^-1074\<close>: the subnormal numbers), overflow from
  \<open>2^1024\<close> on.
\<close>

definition round_double :: "rat \<Rightarrow> rat option" where
  "round_double q =
     (if q = 0 then Some 0
      else let e = max (float_exponent \<bar>q\<bar>) (- 1022);
               ulp = 2 powi (e - 52);
               r = of_int (round_half_even (\<bar>q\<bar> / ulp)) * ulp
           in if 2 ^ 1024 \<le> r then None else Some (sgn q * r))"

definition py_truediv :: "int \<Rightarrow> int \<Rightarrow> error + rat" where
  "py_truediv a b =
     (if b = 0 then Inl ZeroDivisionError
      else case round_double (of_int a / of_int b) of
             None \<Rightarrow> Inl OverflowError
           | Some x \<Rightarrow> Inr x)"

definition float_mul :: "rat \<Rightarrow> rat \<Rightarrow> rat option" where
  "float_mul x y = round_double (x * y)"

definition py_int :: "rat option \<Rightarrow> error + int" where
  "py_int x = (case x of None \<Rightarrow> Inl OverflowError
               | Some y \<Rightarrow> Inr (if 0 \<le> y then \<lfloor>y\<rfloor> else \<lceil>y\<rceil>))"

definition bar_length :: "int \<Rightarrow> int \<Rightarrow> error + int" where
  "bar_length count total' =
     (case py_truediv count total' of Inl e \<Rightarrow> Inl e | Inr x \<Rightarrow> py_int (float_mul x 50))"

section \<open>\<open>class ANSIColor\<close>\<close>

text \<open>The class attributes. Each starts with the character of octal code 033, \<open>ESC\<close>.\<close>

definition ESC :: char where
  "ESC = CHR 0x1B"

definition RED :: pystr where
  "RED = str (ESC # ''[31m'')"

definition GREEN :: pystr where
  "GREEN = str (ESC # ''[32m'')"

definition YELLOW :: pystr where
  "YELLOW = str (ESC # ''[33m'')"

definition BLUE :: pystr where
  "BLUE = str (ESC # ''[34m'')"

definition MAGENTA :: pystr where
  "MAGENTA = str (ESC # ''[35m'')"

definition CYAN :: pystr where
  "CYAN = str (ESC # ''[36m'')"

definition RESET :: pystr where
  "RESET = str (ESC # ''[0m'')"

section \<open>\<open>class ColorTerm\<close>\<close>

text \<open>
  The object has two attributes. \<open>__init__\<close> sets them (on Windows it first asks the
  console to interpret escape sequences, which changes nothing here).
\<close>

record ColorTerm =
  enabled :: bool
  color_stats :: pystr

definition init :: ColorTerm where
  "init = \<lparr>enabled = False, color_stats = []\<rparr>"

definition enable :: "ColorTerm \<Rightarrow> ColorTerm" where
  "enable self = self\<lparr>enabled := True\<rparr>"

definition disable :: "ColorTerm \<Rightarrow> ColorTerm" where
  "disable self = self\<lparr>enabled := False\<rparr>"

subsection \<open>\<open>colored_string\<close> (a static method)\<close>

definition colored_string :: "pystr \<Rightarrow> pystr \<Rightarrow> pystr" where
  "colored_string text color = color @ text @ RESET"

subsection \<open>\<open>build_color_stats\<close>\<close>

text \<open>U+2588, the filled block.\<close>

definition block :: nat where
  "block = 0x2588"

definition stats_header :: pystr where
  "stats_header =
     str (''\<newline>\<newline>-------------------\<newline>'' @ ''Color distribution in ASCII image:\<newline>'')"

text \<open>
  The body of \<open>for color in colors_used\<close>. An exception leaves \<open>self.color_stats\<close> as
  the iterations before it wrote it, so the state is returned beside the outcome.
\<close>

fun stats_loop :: "ColorTerm \<Rightarrow> colors_dict \<Rightarrow> int \<Rightarrow> pystr list \<Rightarrow> (error + unit) \<times> ColorTerm" where
  "stats_loop self colors_used total' [] = (Inr (), self)"
| "stats_loop self colors_used total' (color # colors) =
     (case dict_get colors_used color of
        Inl e \<Rightarrow> (Inl e, self)
      | Inr count \<Rightarrow>
          (case bar_length count total' of
             Inl e \<Rightarrow> (Inl e, self)
           | Inr n \<Rightarrow>
               stats_loop
                 (self\<lparr>color_stats :=
                    color_stats self @ colored_string (ord CHR ''\<newline>'' # replicate (nat n) block) color\<rparr>)
                 colors_used total' colors))"

definition build_color_stats :: "ColorTerm \<Rightarrow> colors_dict \<Rightarrow> (error + unit) \<times> ColorTerm" where
  "build_color_stats self colors_used =
     (let total' = sum_list (map snd colors_used)
      in stats_loop (self\<lparr>color_stats := stats_header\<rparr>) colors_used total' (map fst colors_used))"

subsection \<open>\<open>ascii_color_chars\<close>\<close>

text \<open>One iteration of \<open>for char in text\<close>, on the two locals it updates.\<close>

definition color_char :: "pystr \<times> colors_dict \<Rightarrow> nat \<Rightarrow> error + pystr \<times> colors_dict" where
  "color_char st char =
     (case st of (colored_text, colors_used) \<Rightarrow>
        if char = ord CHR ''3'' then
          map_sum id (Pair (colored_text @ BLUE @ [char] @ RESET)) (dict_iadd colors_used BLUE 1)
        else if char = ord CHR ''&'' then
          map_sum id (Pair (colored_text @ RED @ [char] @ RESET)) (dict_iadd colors_used RED 1)
        else if char = ord CHR ''='' then
          map_sum id (Pair (colored_text @ GREEN @ [char] @ RESET)) (dict_iadd colors_used GREEN 1)
        else if char = ord CHR ''+'' \<or> char = ord CHR ''*'' then
          map_sum id (Pair (colored_text @ MAGENTA @ [char] @ RESET)) (dict_iadd colors_used MAGENTA 1)
        else if char = ord CHR ''#'' \<or> char = ord CHR ''?'' then
          map_sum id (Pair (colored_text @ CYAN @ [char] @ RESET)) (dict_iadd colors_used CYAN 1)
        else
          (let colored_text = colored_text @ [char]
           in if char \<noteq> ord CHR '' '' then
                map_sum id (Pair colored_text) (dict_iadd colors_used RESET 1)
              else Inr (colored_text, colors_used)))"

fun scan_chars :: "pystr \<times> colors_dict \<Rightarrow> pystr \<Rightarrow> error + pystr \<times> colors_dict" where
  "scan_chars st [] = Inr st"
| "scan_chars st (char # text) =
     (case color_char st char of Inl e \<Rightarrow> Inl e | Inr st' \<Rightarrow> scan_chars st' text)"

definition colors_used_init :: colors_dict where
  "colors_used_init = [(BLUE, 0), (RED, 0), (GREEN, 0), (MAGENTA, 0), (CYAN, 0), (RESET, 0)]"

definition ascii_color_chars :: "ColorTerm \<Rightarrow> pystr \<Rightarrow> (error + pystr) \<times> ColorTerm" where
  "ascii_color_chars self text =
     (if enabled self then
        (case scan_chars ([], colors_used_init) text of
           Inl e \<Rightarrow> (Inl e, self)
         | Inr (colored_text, colors_used) \<Rightarrow>
             (case build_color_stats self colors_used of
                (Inl e, self') \<Rightarrow> (Inl e, self')
              | (Inr u, self') \<Rightarrow> (Inr colored_text, self')))
      else (Inr text, self))"

subsection \<open>\<open>warning\<close>, \<open>error\<close>, \<open>info\<close>, \<open>success\<close>\<close>

definition warning :: "ColorTerm \<Rightarrow> pystr \<Rightarrow> pystr" where
  "warning self text = YELLOW @ text @ RESET"

definition error :: "ColorTerm \<Rightarrow> pystr \<Rightarrow> pystr" where
  "error self text = RED @ text @ RESET"

definition info :: "ColorTerm \<Rightarrow> pystr \<Rightarrow> pystr" where
  "info self text = CYAN @ text @ RESET"

definition success :: "ColorTerm \<Rightarrow> pystr \<Rightarrow> pystr" where
  "success self text = GREEN @ text @ RESET"

section \<open>The specification's vocabulary\<close>

text \<open>
  The classification table of the specification (section 4.1), read top to bottom: the
  escape sequence a character is wrapped in, if any.
\<close>

definition char_color :: "nat \<Rightarrow> pystr option" where
  "char_color c =
     (if c = ord CHR ''3'' then Some BLUE
      else if c = ord CHR ''&'' then Some RED
      else if c = ord CHR ''='' then Some GREEN
      else if c = ord CHR ''+'' \<or> c = ord CHR ''*'' then Some MAGENTA
      else if c = ord CHR ''#'' \<or> c = ord CHR ''?'' then Some CYAN
      else None)"

text \<open>What one character contributes to the output: \<open>color + char + reset\<close>, or itself.\<close>

definition wrapped_char :: "nat \<Rightarrow> pystr" where
  "wrapped_char c = (case char_color c of Some color \<Rightarrow> color @ [c] @ RESET | None \<Rightarrow> [c])"

text \<open>
  The histogram bucket of a character: its colour, \<open>RESET\<close> for an uncoloured character
  other than the space, none for the space.
\<close>

definition bucket :: "nat \<Rightarrow> pystr option" where
  "bucket c =
     (case char_color c of
        Some color \<Rightarrow> Some color
      | None \<Rightarrow> if c = ord CHR '' '' then None else Some RESET)"

definition color_count :: "pystr \<Rightarrow> pystr \<Rightarrow> int" where
  "color_count color text = int (length (filter (\<lambda>c. bucket c = Some color) text))"

text \<open>
  The report as the specification words it (section 4.1): after the header, for each
  colour in the enumeration order of section 3, a line break and a bar of
  \<open>floor(count / total * 50)\<close> blocks, wrapped in the colour. A colour that is no key of
  the histogram counts zero.
\<close>

definition Color_enumeration :: "pystr list" where
  "Color_enumeration = [RED, GREEN, YELLOW, BLUE, MAGENTA, CYAN, RESET]"

definition spec_report :: "colors_dict \<Rightarrow> pystr" where
  "spec_report histogram =
     (let total' = sum_list (map snd histogram)
      in stats_header @
         concat (map (\<lambda>color.
           let count = (case map_of histogram color of None \<Rightarrow> 0 | Some v \<Rightarrow> v)
           in color @ ord CHR ''\<newline>'' #
              replicate (nat \<lfloor>rat_of_int count / rat_of_int total' * 50\<rfloor>) block @ RESET)
           Color_enumeration))"

text \<open>
  Modelled from the spec: the repository has no function that removes escape sequences;
  the round-trip property of section 8 needs one. Section 6 names the sequences of the
  output: \<open>ESC[<n>m\<close> for \<open>n\<close> from 31 to 36 and \<open>ESC[0m\<close>, which are the seven of
  \<open>Color_enumeration\<close>. Stripping reads the string from the left, drops a sequence where
  one starts and keeps the character otherwise.
\<close>

definition leading_escape :: "pystr \<Rightarrow> pystr option" where
  "leading_escape s = find (\<lambda>e. take (length e) s = e) Color_enumeration"

function strip_ansi :: "pystr \<Rightarrow> pystr" where
  "strip_ansi [] = []"
| "strip_ansi (c # cs) =
     (case leading_escape (c # cs) of
        Some e \<Rightarrow> strip_ansi (drop (length e) (c # cs))
      | None \<Rightarrow> c # strip_ansi cs)"
  by pat_completeness auto
termination
proof (relation "measure length")
  show "wf (measure length)" by simp
next
  fix c :: nat and cs e :: pystr
  assume "leading_escape (c # cs) = Some e"
  then have "e \<in> set Color_enumeration"
    by (auto simp: leading_escape_def find_Some_iff)
  then have "e \<noteq> []"
    by (auto simp: Color_enumeration_def RED_def GREEN_def YELLOW_def BLUE_def MAGENTA_def
        CYAN_def RESET_def str_def)
  then show "(drop (length e) (c # cs), c # cs) \<in> measure length" by simp
next
  fix c :: nat and cs :: pystr
  show "(cs, c # cs) \<in> measure length" by simp
qed

text \<open>Python's \<open>sub in s\<close>: \<open>sub\<close> occurs in \<open>s\<close> as a contiguous piece.\<close>

fun contains :: "pystr \<Rightarrow> pystr \<Rightarrow> bool" where
  "contains sub [] = (sub = [])"
| "contains sub (c # cs) = (take (length sub) (c # cs) = sub \<or> contains sub cs)"

section \<open>Escape sequences and characters as code points\<close>

lemma RED_code: "RED = [27, 91, 51, 49, 109]"
  by (simp add: RED_def str_def ord_def ESC_def)

lemma GREEN_code: "GREEN = [27, 91, 51, 50, 109]"
  by (simp add: GREEN_def str_def ord_def ESC_def)

lemma YELLOW_code: "YELLOW = [27, 91, 51, 51, 109]"
  by (simp add: YELLOW_def str_def ord_def ESC_def)

lemma BLUE_code: "BLUE = [27, 91, 51, 52, 109]"
  by (simp add: BLUE_def str_def ord_def ESC_def)

lemma MAGENTA_code: "MAGENTA = [27, 91, 51, 53, 109]"
  by (simp add: MAGENTA_def str_def ord_def ESC_def)

lemma CYAN_code: "CYAN = [27, 91, 51, 54, 109]"
  by (simp add: CYAN_def str_def ord_def ESC_def)

lemma RESET_code: "RESET = [27, 91, 48, 109]"
  by (simp add: RESET_def str_def ord_def ESC_def)

lemmas escape_codes =
  RED_code GREEN_code YELLOW_code BLUE_code MAGENTA_code CYAN_code RESET_code

lemma ord_codes:
  "ord CHR ''3'' = 51" "ord CHR ''&'' = 38" "ord CHR ''='' = 61" "ord CHR ''+'' = 43"
  "ord CHR ''*'' = 42" "ord CHR ''#'' = 35" "ord CHR ''?'' = 63" "ord CHR '' '' = 32"
  "ord CHR ''\<newline>'' = 10"
  by (simp_all add: ord_def)

section \<open>The scan loop\<close>

text \<open>
  One iteration on a dictionary with the six keys of the literal: the output grows by
  the wrapped character and exactly the character's bucket grows by one.
\<close>

lemma color_char_step:
  "color_char (acc, [(BLUE, b), (RED, r), (GREEN, g), (MAGENTA, m), (CYAN, c), (RESET, z)]) ch =
     Inr (acc @ wrapped_char ch,
          [(BLUE, b + (if bucket ch = Some BLUE then 1 else 0)),
           (RED, r + (if bucket ch = Some RED then 1 else 0)),
           (GREEN, g + (if bucket ch = Some GREEN then 1 else 0)),
           (MAGENTA, m + (if bucket ch = Some MAGENTA then 1 else 0)),
           (CYAN, c + (if bucket ch = Some CYAN then 1 else 0)),
           (RESET, z + (if bucket ch = Some RESET then 1 else 0))])"
  by (simp add: color_char_def wrapped_char_def bucket_def char_color_def dict_iadd_def
      dict_get_def escape_codes ord_codes Let_def)

lemma scan_chars_from:
  "scan_chars (acc, [(BLUE, b), (RED, r), (GREEN, g), (MAGENTA, m), (CYAN, c), (RESET, z)]) text =
     Inr (acc @ concat (map wrapped_char text),
          [(BLUE, b + color_count BLUE text), (RED, r + color_count RED text),
           (GREEN, g + color_count GREEN text), (MAGENTA, m + color_count MAGENTA text),
           (CYAN, c + color_count CYAN text), (RESET, z + color_count RESET text)])"
proof (induction "text" arbitrary: acc b r g m c z)
  case Nil
  show ?case by (simp add: color_count_def)
next
  case (Cons ch rest)
  show ?case
    by (simp only: scan_chars.simps color_char_step sum.case Cons.IH)
       (simp add: color_count_def)
qed

lemma scan_chars_init:
  "scan_chars ([], colors_used_init) text =
     Inr (concat (map wrapped_char text),
          map (\<lambda>color. (color, color_count color text)) [BLUE, RED, GREEN, MAGENTA, CYAN, RESET])"
  using scan_chars_from [of "[]" 0 0 0 0 0 0 "text"] by (simp add: colors_used_init_def)

section \<open>Rounding to binary64: the bar length is defined and at most 50\<close>

text \<open>The exponent chosen by \<open>float_exponent\<close> is the one of the binade of \<open>q\<close>.\<close>

lemma float_exponent_bounds:
  assumes "0 < q"
  shows "2 powi float_exponent q \<le> q \<and> q < 2 powi (float_exponent q + 1)"
proof (cases "1 \<le> q")
  case True
  define m where "m = \<lfloor>q\<rfloor>"
  have m: "0 < m" "of_int m \<le> q" "q < of_int (m + 1)"
    using True floor_correct [of q] by (simp_all add: m_def)
  have b: "1 \<le> bitlen m" using m(1) bitlen_eq_zero_iff [of m] bitlen_nonneg [of m] by linarith
  from bitlen_bounds [OF m(1)]
  have lo: "2 ^ nat (bitlen m - 1) \<le> m" and hi: "m + 1 \<le> 2 ^ nat (bitlen m)" by simp_all
  have "(2::rat) ^ nat (bitlen m - 1) \<le> of_int m"
    using lo by (metis of_int_le_iff of_int_numeral of_int_power)
  then have lo_q: "2 ^ nat (bitlen m - 1) \<le> q" using m(2) by (rule order_trans)
  have "(of_int (m + 1) :: rat) \<le> 2 ^ nat (bitlen m)"
    using hi by (metis of_int_le_iff of_int_numeral of_int_power)
  with m(3) have hi_q: "q < 2 ^ nat (bitlen m)" by (rule less_le_trans)
  have e: "float_exponent q = bitlen m - 1" using True by (simp add: float_exponent_def m_def)
  have "nat (bitlen m - 1 + 1) = nat (bitlen m)" by simp
  with lo_q hi_q b show ?thesis unfolding e by (simp add: power_int_def)
next
  case False
  define p where "p = 1 / q"
  define j where "j = \<lceil>p\<rceil> - 1"
  have p: "1 < p" using False assms by (simp add: p_def)
  have j: "0 < j" "of_int j < p" "p \<le> of_int (j + 1)"
    using p by (simp_all add: j_def less_ceiling_iff) linarith
  have b: "1 \<le> bitlen j" using j(1) bitlen_eq_zero_iff [of j] bitlen_nonneg [of j] by linarith
  from bitlen_bounds [OF j(1)]
  have lo: "2 ^ nat (bitlen j - 1) \<le> j" and hi: "j + 1 \<le> 2 ^ nat (bitlen j)" by simp_all
  have lo': "(2::rat) ^ nat (bitlen j - 1) < p"
    using lo j(2) by (metis (no_types) le_less_trans of_int_le_iff of_int_numeral of_int_power)
  have hi': "p \<le> 2 ^ nat (bitlen j)"
    using hi j(3) by (metis (no_types) order_trans of_int_le_iff of_int_numeral of_int_power)
  have e: "float_exponent q = - bitlen j" using False by (simp add: float_exponent_def j_def p_def)
  have q: "q = 1 / p" by (simp add: p_def)
  have "1 / 2 ^ nat (bitlen j) \<le> q"
    unfolding q using hi' p by (intro divide_left_mono) simp_all
  moreover have "q < 1 / 2 ^ nat (bitlen j - 1)"
    unfolding q using lo' p by (intro divide_strict_left_mono) simp_all
  moreover have "2 powi (- bitlen j) = (1::rat) / 2 ^ nat (bitlen j)"
    using b by (simp add: power_int_def field_simps flip: power_inverse)
  moreover have "2 powi (- bitlen j + 1) = (1::rat) / 2 ^ nat (bitlen j - 1)"
    using b by (cases "bitlen j = 1") (simp_all add: power_int_def field_simps nat_diff_distrib flip: power_inverse)
  ultimately show ?thesis by (simp add: e)
qed

lemma round_half_even_cases: "round_half_even q = \<lfloor>q\<rfloor> \<or> (round_half_even q = \<lfloor>q\<rfloor> + 1 \<and> of_int \<lfloor>q\<rfloor> < q)"
  by (auto simp: round_half_even_def Let_def)

lemma round_half_even_le: "q \<le> of_int M \<Longrightarrow> round_half_even q \<le> M"
  using round_half_even_cases [of q] by (auto simp: floor_le_iff le_floor_iff)

lemma round_half_even_nonneg: "0 \<le> q \<Longrightarrow> 0 \<le> round_half_even q"
  using round_half_even_cases [of q] by auto

lemma float_exponent_le_0: "q \<le> 1 \<Longrightarrow> float_exponent q \<le> 0"
  by (cases "q = 1") (auto simp: float_exponent_def bitlen_nonneg bitlen_alt_def)

lemma float_exponent_le_5: "q \<le> 50 \<Longrightarrow> float_exponent q \<le> 5"
proof (cases "1 \<le> q")
  case True
  assume "q \<le> 50"
  then have "\<lfloor>q\<rfloor> < 2 ^ nat 6" by (simp add: floor_less_iff)
  then have "bitlen \<lfloor>q\<rfloor> \<le> 6" by (simp only: bitlen_le_iff_power) simp
  with True show ?thesis by (simp add: float_exponent_def)
next
  case False
  have "0 \<le> bitlen (\<lceil>1 / q\<rceil> - 1)" by (rule bitlen_nonneg)
  with False show ?thesis by (simp add: float_exponent_def)
qed

lemma round_double_bounded:
  assumes q: "0 \<le> q" "q \<le> of_nat B" and e: "float_exponent q \<le> 52" and B: "B < 2 ^ 1024"
  shows "\<exists>r. round_double q = Some r \<and> 0 \<le> r \<and> r \<le> of_nat B"
proof (cases "q = 0")
  case True
  then show ?thesis by (simp add: round_double_def)
next
  case False
  with q have pos: "0 < q" by simp
  define k where "k = nat (52 - max (float_exponent q) (- 1022))"
  define ulp :: rat where "ulp = 2 powi (max (float_exponent q) (- 1022) - 52)"
  have ulp: "ulp = 1 / 2 ^ k" 
    using e by (simp add: ulp_def k_def power_int_def field_simps flip: power_inverse) 
  have ulp_pos: "0 < ulp" by (simp add: ulp)
  define n where "n = round_half_even (q / ulp)"
  have "q / ulp \<le> of_int (int B * 2 ^ k)"
    using q by (simp add: ulp mult_right_mono)
  then have n_le: "n \<le> int B * 2 ^ k" unfolding n_def by (rule round_half_even_le)
  have n_ge: "0 \<le> n" unfolding n_def using q ulp_pos by (intro round_half_even_nonneg) simp
  have "of_int n * ulp \<le> of_int (int B * 2 ^ k) * ulp"
    using n_le ulp_pos by (intro mult_right_mono) (simp_all add: of_int_le_iff del: of_int_mult of_int_power)
  then have r_le: "of_int n * ulp \<le> of_nat B" by (simp add: ulp)
  have r_ge: "0 \<le> of_int n * ulp" using n_ge ulp_pos by simp
  have "(of_nat B :: rat) < 2 ^ 1024" using B by (metis of_nat_less_iff of_nat_numeral of_nat_power)
  with r_le have no_ovf: "\<not> 2 ^ 1024 \<le> of_int n * ulp" by linarith
  have "round_double q = Some (of_int n * ulp)"
    using pos no_ovf by (simp add: round_double_def Let_def n_def ulp_def)
  with r_le r_ge show ?thesis by simp
qed

lemma bar_length_ok:
  assumes "0 \<le> c" "c \<le> t" "0 < t"
  shows "\<exists>n. bar_length c t = Inr n \<and> 0 \<le> n \<and> n \<le> 50"
proof -
  let ?q = "of_int c / of_int t :: rat"
  have q: "0 \<le> ?q" "?q \<le> of_nat 1" using assms by simp_all
  then have "float_exponent ?q \<le> 52" using float_exponent_le_0 [of ?q] by simp
  from round_double_bounded [OF q this] obtain x
    where x: "round_double ?q = Some x" "0 \<le> x" "x \<le> 1" by auto
  have y: "0 \<le> x * 50" "x * 50 \<le> of_nat 50" using x by simp_all
  then have "float_exponent (x * 50) \<le> 52" using float_exponent_le_5 [of "x * 50"] by simp
  from round_double_bounded [OF y this] obtain y
    where y: "round_double (x * 50) = Some y" "0 \<le> y" "y \<le> 50" by auto
  have "bar_length c t = Inr \<lfloor>y\<rfloor>"
    using assms x y by (simp add: bar_length_def py_truediv_def float_mul_def py_int_def)
  moreover have "0 \<le> \<lfloor>y\<rfloor>" "\<lfloor>y\<rfloor> \<le> 50" using y by (simp_all add: floor_le_iff)
  ultimately show ?thesis by simp
qed

section \<open>Evaluating the bar length\<close>

text \<open>
  Once the exponent and the rounded significand are known, \<open>round_double\<close> is
  determined; the instances below are the ones the examples need. Count 29 of total
  50 is the smallest case where the two roundings lose a block: 28, not 29.
\<close>

lemma round_double_eval:
  assumes q: "0 < q" and e: "float_exponent q = e" "- 1022 \<le> e" "e \<le> 52"
    and n: "round_half_even (q * 2 ^ nat (52 - e)) = n" "n \<le> 2 ^ 53"
  shows "round_double q = Some (of_int n / 2 ^ nat (52 - e))"
proof -
  define u :: rat where "u = 2 powi (max (float_exponent q) (- 1022) - 52)"
  define r :: rat where "r = of_int (round_half_even (\<bar>q\<bar> / u)) * u"
  have u: "u = 1 / 2 ^ nat (52 - e)"
    using e by (simp add: u_def power_int_def field_simps max_def flip: power_inverse)
  from q have q': "q \<noteq> 0" "\<bar>q\<bar> = q" "sgn q = 1" by simp_all
  have r: "r = of_int n / 2 ^ nat (52 - e)" using n(1) by (simp add: r_def u q')
  have "(of_int n :: rat) \<le> of_int (2 ^ 53)" using n(2) by (simp only: of_int_le_iff)
  then have "(of_int n :: rat) \<le> 2 ^ 53" by simp
  moreover have "(1::rat) \<le> 2 ^ nat (52 - e)" by simp
  ultimately have "(of_int n :: rat) / 2 ^ nat (52 - e) \<le> 2 ^ 53 / 1"
    by (intro frac_le) simp_all
  also have "\<dots> < (2::rat) ^ 1024"
    by (simp add: power_strict_increasing del: power_numeral_even power_numeral_odd)
  finally have small: "\<not> (2::rat) ^ 1024 \<le> r" unfolding r by (simp only: not_le)
  have "round_double q = (if 2 ^ 1024 \<le> r then None else Some (sgn q * r))"
    by (simp only: round_double_def Let_def r_def u_def q' if_False)
  with small show ?thesis by (simp only: if_False q' mult_1 r)
qed

lemma bar_length_eval:
  assumes ct: "0 < c" "0 < t"
    and e1: "float_exponent (of_int c / of_int t) = e1" "- 1022 \<le> e1" "e1 \<le> 52"
    and n1: "round_half_even (of_int c / of_int t * 2 ^ nat (52 - e1)) = n1" "0 < n1" "n1 \<le> 2 ^ 53"
    and e2: "float_exponent (of_int n1 / 2 ^ nat (52 - e1) * 50) = e2" "- 1022 \<le> e2" "e2 \<le> 52"
    and n2: "round_half_even (of_int n1 / 2 ^ nat (52 - e1) * 50 * 2 ^ nat (52 - e2)) = n2"
      "n2 \<le> 2 ^ 53"
  shows "bar_length c t = Inr \<lfloor>rat_of_int n2 / 2 ^ nat (52 - e2)\<rfloor>"
proof -
  let ?x = "rat_of_int n1 / 2 ^ nat (52 - e1)"
  let ?y = "rat_of_int n2 / 2 ^ nat (52 - e2)"
  have q: "0 < rat_of_int c / rat_of_int t" using ct by simp
  have x: "round_double (of_int c / of_int t) = Some ?x"
    using q e1 n1(1,3) by (rule round_double_eval)
  have x_pos: "0 < ?x * 50" using n1(2) by simp
  have y: "round_double (?x * 50) = Some ?y"
    using x_pos e2 n2 by (rule round_double_eval)
  have "0 \<le> ?x * 50 * 2 ^ nat (52 - e2)" using n1(2) by simp
  then have "0 \<le> round_half_even (?x * 50 * 2 ^ nat (52 - e2))" by (rule round_half_even_nonneg)
  then have "0 \<le> n2" unfolding n2(1) .
  then have "0 \<le> ?y" by simp
  then have 3: "py_int (Some ?y) = Inr \<lfloor>?y\<rfloor>" by (simp add: py_int_def)
  have 1: "py_truediv c t = Inr ?x" using ct(2) x by (simp add: py_truediv_def)
  have 2: "float_mul ?x 50 = Some ?y" unfolding float_mul_def by (rule y)
  show ?thesis unfolding bar_length_def 1 by (simp only: sum.case 2 3)
qed

lemma floor_numeral_div: "\<lfloor>numeral a / numeral b :: rat\<rfloor> = numeral a div numeral b"
  by (metis floor_divide_of_int_eq of_int_numeral)

lemma ceiling_numeral_div: "\<lceil>numeral a / numeral b :: rat\<rceil> = - (- numeral a div numeral b)"
proof -
  have "- (numeral a / numeral b :: rat) = of_int (- numeral a) / of_int (numeral b)" by simp
  then show ?thesis unfolding ceiling_def by (simp only: floor_divide_of_int_eq)
qed

lemma bitlen_1: "bitlen 1 = 1"
  by code_simp

lemma bitlen_2: "bitlen 2 = 2"
  by code_simp

lemma bitlen_20: "bitlen 20 = 5"
  by code_simp

lemma bitlen_28: "bitlen 28 = 5"
  by code_simp

lemma bitlen_50: "bitlen 50 = 6"
  by code_simp

lemma bar_length_29_50: "bar_length 29 50 = Inr 28"
  using bar_length_eval [where c = 29 and t = 50 and ?e1.0 = "- 1" and ?n1.0 = 5224175567749775
      and ?e2.0 = 4 and ?n2.0 = 8162774324609023]
  by (simp add: float_exponent_def round_half_even_def Let_def floor_numeral_div ceiling_numeral_div bitlen_1 bitlen_28)

lemma bar_length_21_50: "bar_length 21 50 = Inr 21"
  using bar_length_eval [where c = 21 and t = 50 and ?e1.0 = "- 2" and ?n1.0 = 7566047373982433
      and ?e2.0 = 4 and ?n2.0 = 5910974510923776]
  by (simp add: float_exponent_def round_half_even_def Let_def floor_numeral_div ceiling_numeral_div bitlen_2 bitlen_20)

lemma bar_length_zero: "t \<noteq> 0 \<Longrightarrow> bar_length 0 t = Inr 0"
  by (simp add: bar_length_def py_truediv_def float_mul_def py_int_def round_double_def)

lemma bar_length_all: "0 < t \<Longrightarrow> bar_length t t = Inr 50"
  using bar_length_eval [where c = t and t = t and ?e1.0 = 0 and ?n1.0 = "2 ^ 52"
      and ?e2.0 = 5 and ?n2.0 = "50 * 2 ^ 47"]
  by (simp add: float_exponent_def round_half_even_def Let_def floor_numeral_div ceiling_numeral_div bitlen_1 bitlen_50)

section \<open>The histogram of a scan\<close>

lemma bucket_cases:
  "bucket c = None \<and> c = ord CHR '' '' \<or>
   c \<noteq> ord CHR '' '' \<and> bucket c \<in> {Some BLUE, Some RED, Some GREEN, Some MAGENTA, Some CYAN, Some RESET}"
  by (simp add: bucket_def char_color_def ord_codes)

lemma color_count_sum:
  "color_count BLUE s + color_count RED s + color_count GREEN s + color_count MAGENTA s
     + color_count CYAN s + color_count RESET s = int (length (filter (\<lambda>c. c \<noteq> ord CHR '' '') s))"
proof (induction s)
  case Nil
  show ?case by (simp add: color_count_def)
next
  case (Cons c s)
  from bucket_cases [of c] Cons show ?case
    by (auto simp: color_count_def escape_codes)
qed

lemma color_count_nonneg: "0 \<le> color_count color s"
  by (simp add: color_count_def)

lemma length_filter_neq: "length (filter (\<lambda>c. c \<noteq> a) s) = length s - count_list s a"
  by (induction s) (auto simp: Suc_diff_le count_le_length)

section \<open>The report in closed form\<close>

text \<open>
  On a dictionary with distinct keys, counts that are not negative and a positive total,
  no division fails and the loop appends one wrapped line per key, in dictionary order.
\<close>

lemma dict_get_distinct:
  "distinct (map fst d) \<Longrightarrow> (k, v) \<in> set d \<Longrightarrow> dict_get d k = Inr v"
  by (simp add: dict_get_def)

lemma member_le_sum_list:
  "\<forall>v\<in>set vs. (0::int) \<le> v \<Longrightarrow> v \<in> set vs \<Longrightarrow> v \<le> sum_list vs"
  by (induction vs) (auto simp: sum_list_nonneg intro: add_increasing add_increasing2)

lemma stats_loop_closed:
  assumes "\<forall>(k, v)\<in>set kvs. dict_get d k = Inr v \<and> 0 \<le> v \<and> v \<le> t" and "0 < t"
  shows "stats_loop self d t (map fst kvs) =
     (Inr (), self\<lparr>color_stats := color_stats self @
        concat (map (\<lambda>(color, count).
          color @ ord CHR ''\<newline>'' # replicate (nat (projr (bar_length count t))) block @ RESET) kvs)\<rparr>)"
  using assms
proof (induction kvs arbitrary: self)
  case Nil
  show ?case by simp
next
  case (Cons kv kvs)
  obtain k v where kv: "kv = (k, v)" by (cases kv)
  from Cons.prems kv have g: "dict_get d k = Inr v" and v: "0 \<le> v" "v \<le> t" by auto
  from bar_length_ok [OF v \<open>0 < t\<close>] obtain n where n: "bar_length v t = Inr n" by auto
  have rest: "\<forall>(k, v)\<in>set kvs. dict_get d k = Inr v \<and> 0 \<le> v \<and> v \<le> t"
    using Cons.prems by simp
  show ?case
    by (simp add: kv g n Cons.IH [OF rest \<open>0 < t\<close>] colored_string_def)
qed

lemma build_color_stats_closed:
  assumes "distinct (map fst d)" and "\<forall>v\<in>set (map snd d). 0 \<le> v" and "0 < sum_list (map snd d)"
  shows "build_color_stats self d =
     (Inr (), self\<lparr>color_stats := stats_header @
        concat (map (\<lambda>(color, count).
          color @ ord CHR ''\<newline>'' #
            replicate (nat (projr (bar_length count (sum_list (map snd d))))) block @ RESET) d)\<rparr>)"
proof -
  have "\<forall>(k, v)\<in>set d. dict_get d k = Inr v \<and> 0 \<le> v \<and> v \<le> sum_list (map snd d)"
    using assms(1,2) member_le_sum_list [OF assms(2)] by (force simp: dict_get_distinct)
  from stats_loop_closed [OF this assms(3)] show ?thesis
    by (simp add: build_color_stats_def)
qed

section \<open>\<open>ascii_color_chars\<close> in closed form\<close>

lemma non_space_count:
  "(\<exists>c\<in>set s. c \<noteq> a) \<longleftrightarrow> 0 < length (filter (\<lambda>c. c \<noteq> a) s)"
  by (induction s) auto

lemma scan_total:
  "sum_list (map snd (map (\<lambda>color. (color, color_count color s)) [BLUE, RED, GREEN, MAGENTA, CYAN, RESET]))
     = int (length (filter (\<lambda>c. c \<noteq> ord CHR '' '') s))"
  using color_count_sum [of s] by simp

lemma ascii_color_chars_enabled:
  assumes "enabled self" and "\<exists>c\<in>set s. c \<noteq> ord CHR '' ''"
  shows "ascii_color_chars self s =
     (Inr (concat (map wrapped_char s)),
      self\<lparr>color_stats := stats_header @
        concat (map (\<lambda>color. color @ ord CHR ''\<newline>'' #
          replicate (nat (projr (bar_length (color_count color s)
             (int (length (filter (\<lambda>c. c \<noteq> ord CHR '' '') s)))))) block @ RESET)
          [BLUE, RED, GREEN, MAGENTA, CYAN, RESET])\<rparr>)"
proof -
  let ?d = "map (\<lambda>color. (color, color_count color s)) [BLUE, RED, GREEN, MAGENTA, CYAN, RESET]"
  have d: "distinct (map fst ?d)" by (simp add: escape_codes)
  have nn: "\<forall>v\<in>set (map snd ?d). 0 \<le> v" by (simp add: color_count_nonneg)
  have pos: "0 < sum_list (map snd ?d)"
    using assms(2) unfolding scan_total by (simp add: non_space_count)
  show ?thesis
    unfolding ascii_color_chars_def scan_chars_init
    using assms(1) build_color_stats_closed [OF d nn pos, of self]
    by (simp add: scan_total [simplified] )
qed

lemma ascii_color_chars_all_spaces:
  assumes "enabled self" and "\<forall>c\<in>set s. c = ord CHR '' ''"
  shows "ascii_color_chars self s = (Inl ZeroDivisionError, self\<lparr>color_stats := stats_header\<rparr>)"
proof -
  have z: "color_count color s = 0" for color
    using assms(2) by (auto simp: color_count_def bucket_def char_color_def ord_codes filter_empty_conv)
  show ?thesis
    unfolding ascii_color_chars_def scan_chars_init
    using assms(1)
    by (simp add: z build_color_stats_def dict_get_def bar_length_def py_truediv_def)
qed

section \<open>Stripping the escape sequences of a scan\<close>

text \<open>
  A colour or reset sequence written by the scan is found and dropped. A character the
  scan leaves alone is kept, unless it is an \<open>ESC\<close> that starts a sequence: no colour
  sequence can start there, since the scan wraps every \<open>3\<close>, but a reset sequence of the
  input itself does.
\<close>

lemma escape_lengths:
  "length RED = 5" "length GREEN = 5" "length YELLOW = 5" "length BLUE = 5"
  "length MAGENTA = 5" "length CYAN = 5" "length RESET = 4"
  by (simp_all add: escape_codes)

lemma leading_escape_unfold:
  "leading_escape s =
     (if take 5 s = RED then Some RED else if take 5 s = GREEN then Some GREEN
      else if take 5 s = YELLOW then Some YELLOW else if take 5 s = BLUE then Some BLUE
      else if take 5 s = MAGENTA then Some MAGENTA else if take 5 s = CYAN then Some CYAN
      else if take 4 s = RESET then Some RESET else None)"
  by (simp add: leading_escape_def Color_enumeration_def escape_lengths)

lemma leading_escape_not_ESC: "c \<noteq> 27 \<Longrightarrow> leading_escape (c # cs) = None"
  by (auto simp: leading_escape_unfold escape_codes)

lemma strip_ansi_not_ESC: "c \<noteq> 27 \<Longrightarrow> strip_ansi (c # cs) = c # strip_ansi cs"
  by (simp add: leading_escape_not_ESC)

lemma strip_ansi_escape:
  "e \<in> {BLUE, RED, GREEN, MAGENTA, CYAN, RESET} \<Longrightarrow> strip_ansi (e @ rest) = strip_ansi rest"
  by (auto simp: escape_codes leading_escape_unfold)


lemma char_color_Some:
  "char_color c = Some color \<Longrightarrow>
     color \<in> {BLUE, RED, GREEN, MAGENTA, CYAN, RESET} \<and> c \<noteq> 27 \<and> (\<exists>t. color = 27 # t)"
  by (auto simp: char_color_def ord_codes escape_codes split: if_splits)

lemma wrapped_head:
  assumes "concat (map wrapped_char cs) = x # rest" and "x \<noteq> 27"
  shows "\<exists>cs'. cs = x # cs' \<and> char_color x = None \<and> rest = concat (map wrapped_char cs')"
proof (cases cs)
  case Nil
  with assms show ?thesis by simp
next
  case (Cons c cs')
  show ?thesis
  proof (cases "char_color c")
    case None
    with assms Cons show ?thesis by (simp add: wrapped_char_def)
  next
    case (Some color)
    from char_color_Some [OF this] obtain t where "color = 27 # t" by blast
    with assms Cons Some show ?thesis by (simp add: wrapped_char_def)
  qed
qed

lemma wrapped_no_91_51: "concat (map wrapped_char cs) \<noteq> 91 # 51 # r"
proof
  assume "concat (map wrapped_char cs) = 91 # 51 # r"
  from wrapped_head [OF this] obtain cs' where "concat (map wrapped_char cs') = 51 # r" by auto
  from wrapped_head [OF this] have "char_color 51 = None" by auto
  then show False by (simp add: char_color_def ord_codes)
qed

lemma wrapped_reset_inside:
  assumes "concat (map wrapped_char cs) = 91 # 48 # 109 # r"
  shows "take 3 cs = [91, 48, 109]"
proof -
  from wrapped_head [OF assms] obtain cs1
    where 1: "cs = 91 # cs1" "concat (map wrapped_char cs1) = 48 # 109 # r" by auto
  from wrapped_head [OF 1(2)] obtain cs2
    where 2: "cs1 = 48 # cs2" "concat (map wrapped_char cs2) = 109 # r" by auto
  from wrapped_head [OF 2(2)] obtain cs3 where 3: "cs2 = 109 # cs3" by auto
  show ?thesis by (simp add: 1 2 3)
qed

lemma take_eq_append: "take n xs = p \<Longrightarrow> xs = p @ drop n xs"
  by (metis append_take_drop_id)

lemma plain_ESC:
  assumes "take 3 cs \<noteq> [91, 48, 109]"
  shows "leading_escape (27 # concat (map wrapped_char cs)) = None"
proof -
  let ?out = "concat (map wrapped_char cs)"
  have color: "take 4 ?out \<noteq> [91, 51, d, 109]" for d
  proof
    assume "take 4 ?out = [91, 51, d, 109]"
    from take_eq_append [OF this]
    have "?out = 91 # 51 # d # 109 # drop 4 ?out" by simp
    with wrapped_no_91_51 show False by blast
  qed
  have reset: "take 3 ?out \<noteq> [91, 48, 109]"
  proof
    assume "take 3 ?out = [91, 48, 109]"
    from take_eq_append [OF this]
    have "?out = 91 # 48 # 109 # drop 3 ?out" by simp
    from wrapped_reset_inside [OF this] assms show False by blast
  qed
  show ?thesis
    by (simp add: leading_escape_unfold escape_codes color reset)
qed

lemma strip_ansi_wrapped:
  "\<not> contains RESET s \<Longrightarrow> strip_ansi (concat (map wrapped_char s)) = s"
proof (induction s)
  case Nil
  show ?case by simp
next
  case (Cons c cs)
  from Cons.prems have no: "take 4 (c # cs) \<noteq> RESET" and "\<not> contains RESET cs"
    by (simp_all add: escape_lengths)
  with Cons.IH have IH: "strip_ansi (concat (map wrapped_char cs)) = cs" by simp
  show ?case
  proof (cases "char_color c")
    case None
    show ?thesis
    proof (cases "c = 27")
      case True
      from no True have "take 3 cs \<noteq> [91, 48, 109]" by (simp add: escape_codes)
      from plain_ESC [OF this]
      have "strip_ansi (27 # concat (map wrapped_char cs)) = 27 # cs" by (simp add: IH)
      moreover from None True have "wrapped_char 27 = [27]" by (simp add: wrapped_char_def)
      ultimately show ?thesis unfolding True by simp
    next
      case False
      from None have "wrapped_char c = [c]" by (simp add: wrapped_char_def)
      with False show ?thesis by (simp add: leading_escape_not_ESC IH)
    qed
  next
    case (Some color)
    from char_color_Some [OF this]
    have color: "color \<in> {BLUE, RED, GREEN, MAGENTA, CYAN, RESET}" and c: "c \<noteq> 27" by simp_all
    have "strip_ansi (color @ c # RESET @ concat (map wrapped_char cs)) =
          strip_ansi (c # RESET @ concat (map wrapped_char cs))"
      using color by (rule strip_ansi_escape)
    also have "\<dots> = c # strip_ansi (RESET @ concat (map wrapped_char cs))"
      using c by (rule strip_ansi_not_ESC)
    also have "\<dots> = c # strip_ansi (concat (map wrapped_char cs))"
      by (simp add: strip_ansi_escape)
    finally have "strip_ansi (color @ c # RESET @ concat (map wrapped_char cs)) = c # cs"
      by (simp add: IH)
    moreover from Some have "wrapped_char c = color @ c # RESET" by (simp add: wrapped_char_def)
    ultimately show ?thesis by simp
  qed
qed

section \<open>The claims\<close>

text \<open>
  C1. For every input the scan loop yields the characters in their original order, each
  wrapped as its colour, itself and the reset sequence when the table gives it a colour
  (\<open>3\<close> blue, \<open>&\<close> red, \<open>=\<close> green, \<open>+\<close> and \<open>*\<close> magenta, \<open>#\<close> and \<open>?\<close> cyan) and
  unchanged otherwise; the histogram counts every character under its colour, every
  other character except the space under \<open>RESET\<close>, and the space nowhere. An enabled
  \<open>ascii_color_chars\<close> returns this text whenever the input has a character other than
  the space.
\<close>

theorem scan_classification:
  "scan_chars ([], colors_used_init) s =
     Inr (concat (map wrapped_char s),
          map (\<lambda>color. (color, color_count color s)) [BLUE, RED, GREEN, MAGENTA, CYAN, RESET])
   \<and> (enabled self \<and> (\<exists>c\<in>set s. c \<noteq> ord CHR '' '') \<longrightarrow>
        fst (ascii_color_chars self s) = Inr (concat (map wrapped_char s)))"
  by (simp add: scan_chars_init ascii_color_chars_enabled)

theorem scan_classification_witness:
  "enabled (enable init) \<and> (\<exists>c\<in>set (str ''3&=+*#? x''). c \<noteq> ord CHR '' '') \<and>
   fst (ascii_color_chars (enable init) (str ''3&=+*#? x'')) =
     Inr (BLUE @ str ''3'' @ RESET @ RED @ str ''&'' @ RESET @ GREEN @ str ''='' @ RESET
          @ MAGENTA @ str ''+'' @ RESET @ MAGENTA @ str ''*'' @ RESET
          @ CYAN @ str ''#'' @ RESET @ CYAN @ str ''?'' @ RESET @ str '' x'')"
  using scan_classification [of "str ''3&=+*#? x''" "enable init"]
  by (simp add: enable_def init_def str_def ord_def wrapped_char_def char_color_def)

text \<open>
  C4. \<open>colored_string\<close> is the colour, the text and the reset sequence, for every text
  (the empty one too) and every colour; it takes no \<open>ColorTerm\<close>, so the flag and the
  stored report play no part. The last conjunct is the example of its docstring.
\<close>

theorem colored_string_concat:
  "colored_string s color = color @ s @ RESET \<and> colored_string [] color = color @ RESET \<and>
   colored_string (str ''Hello'') RED = str (ESC # ''[31mHello'' @ ESC # ''[0m'')"
  by (simp add: colored_string_def RED_def RESET_def str_def)

text \<open>
  C5. A disabled \<open>ascii_color_chars\<close> returns its input and leaves the object, the
  stored report included, as it was.
\<close>

theorem ascii_color_chars_disabled:
  "\<not> enabled self \<Longrightarrow> ascii_color_chars self s = (Inr s, self)"
  by (simp add: ascii_color_chars_def)

theorem ascii_color_chars_disabled_witness:
  "\<not> enabled (init\<lparr>color_stats := str ''old''\<rparr>) \<and>
   ascii_color_chars (init\<lparr>color_stats := str ''old''\<rparr>) (str ''3&= x'') =
     (Inr (str ''3&= x''), init\<lparr>color_stats := str ''old''\<rparr>)"
  using ascii_color_chars_disabled [of "init\<lparr>color_stats := str ''old''\<rparr>" "str ''3&= x''"]
  by (simp add: init_def)

text \<open>
  C9. Whatever the state of the object, \<open>warning\<close>, \<open>error\<close>, \<open>info\<close> and \<open>success\<close>
  wrap the text in yellow, red, cyan and green.
\<close>

theorem semantic_wrappers:
  "warning self s = colored_string s YELLOW \<and> error self s = colored_string s RED \<and>
   info self s = colored_string s CYAN \<and> success self s = colored_string s GREEN"
  by (simp add: warning_def error_def info_def success_def colored_string_def)

text \<open>
  C3. On two spaces, and on the empty string, an enabled \<open>ascii_color_chars\<close> does not
  return: the total is zero, the first division raises \<open>ZeroDivisionError\<close>, and the
  stored report is left holding the header alone.
\<close>

theorem ascii_color_chars_zero_total:
  "ascii_color_chars (enable init) (str ''  '') =
     (Inl ZeroDivisionError, \<lparr>enabled = True, color_stats = stats_header\<rparr>) \<and>
   ascii_color_chars (enable init) [] =
     (Inl ZeroDivisionError, \<lparr>enabled = True, color_stats = stats_header\<rparr>)"
  using ascii_color_chars_all_spaces [of "enable init" "str ''  ''"]
    ascii_color_chars_all_spaces [of "enable init" "[]"]
  by (simp add: enable_def init_def str_def)

text \<open>
  C8. The counts of the histogram a scan builds are not negative and add up to the
  length of the input less the number of its spaces.
\<close>

theorem histogram_counts_sum:
  "\<exists>colored_text colors_used.
     scan_chars ([], colors_used_init) s = Inr (colored_text, colors_used) \<and>
     (\<forall>v\<in>set (map snd colors_used). 0 \<le> v) \<and>
     sum_list (map snd colors_used) = int (length s) - int (count_list s (ord CHR '' ''))"
proof -
  let ?d = "map (\<lambda>color. (color, color_count color s)) [BLUE, RED, GREEN, MAGENTA, CYAN, RESET]"
  have 1: "scan_chars ([], colors_used_init) s = Inr (concat (map wrapped_char s), ?d)"
    by (rule scan_chars_init)
  have 2: "\<forall>v\<in>set (map snd ?d). 0 \<le> v"
    by (simp add: color_count_nonneg)
  have 3: "sum_list (map snd ?d) = int (length s) - int (count_list s (ord CHR '' ''))"
    unfolding scan_total length_filter_neq by (simp add: of_nat_diff count_le_length)
  from 1 2 3 show ?thesis by blast
qed

theorem histogram_counts_sum_witness:
  "\<exists>colored_text colors_used.
     scan_chars ([], colors_used_init) (str ''a 3 +'') = Inr (colored_text, colors_used) \<and>
     (\<forall>v\<in>set (map snd colors_used). 0 \<le> v) \<and>
     sum_list (map snd colors_used) = 3"
  using histogram_counts_sum [of "str ''a 3 +''"] by (simp add: str_def ord_def)

text \<open>
  C10. When the input has a character other than the space, the total handed to
  \<open>build_color_stats\<close> is positive and an enabled \<open>ascii_color_chars\<close> returns a string:
  no division fails.
\<close>

theorem ascii_color_chars_completes:
  assumes "enabled self" and "\<exists>c\<in>set s. c \<noteq> ord CHR '' ''"
  shows "\<exists>colored_text colors_used self'.
     scan_chars ([], colors_used_init) s = Inr (colored_text, colors_used) \<and>
     0 < sum_list (map snd colors_used) \<and>
     ascii_color_chars self s = (Inr colored_text, self')"
proof -
  let ?d = "map (\<lambda>color. (color, color_count color s)) [BLUE, RED, GREEN, MAGENTA, CYAN, RESET]"
  have 1: "scan_chars ([], colors_used_init) s = Inr (concat (map wrapped_char s), ?d)"
    by (rule scan_chars_init)
  have 2: "0 < sum_list (map snd ?d)"
    using assms(2) unfolding scan_total by (simp add: non_space_count)
  from 1 2 ascii_color_chars_enabled [OF assms] show ?thesis by blast
qed

theorem ascii_color_chars_completes_witness:
  "enabled (enable init) \<and> (\<exists>c\<in>set (str '' a''). c \<noteq> ord CHR '' '') \<and>
   (\<exists>colored_text colors_used self'.
     scan_chars ([], colors_used_init) (str '' a'') = Inr (colored_text, colors_used) \<and>
     0 < sum_list (map snd colors_used) \<and>
     ascii_color_chars (enable init) (str '' a'') = (Inr colored_text, self'))"
proof -
  have e: "enabled (enable init)" by (simp add: enable_def)
  have c: "\<exists>c\<in>set (str '' a''). c \<noteq> ord CHR '' ''" by (simp add: str_def ord_def)
  from e c ascii_color_chars_completes [OF e c] show ?thesis by blast
qed

text \<open>
  C7, as stated, fails: the dictionary a scan of \<open>ab\<close> hands to \<open>build_color_stats\<close> has
  six keys, and \<open>YELLOW\<close> is not among them.
\<close>

theorem histogram_keys_counterexample:
  "scan_chars ([], colors_used_init) (str ''ab'') =
     Inr (str ''ab'', [(BLUE, 0), (RED, 0), (GREEN, 0), (MAGENTA, 0), (CYAN, 0), (RESET, 2)]) \<and>
   set (map fst [(BLUE, 0::int), (RED, 0), (GREEN, 0), (MAGENTA, 0), (CYAN, 0), (RESET, 2)]) \<noteq>
     {RED, GREEN, YELLOW, BLUE, MAGENTA, CYAN, RESET}"
proof
  show "scan_chars ([], colors_used_init) (str ''ab'') =
     Inr (str ''ab'', [(BLUE, 0), (RED, 0), (GREEN, 0), (MAGENTA, 0), (CYAN, 0), (RESET, 2)])"
    unfolding scan_chars_init
    by (simp add: str_def ord_def wrapped_char_def char_color_def color_count_def bucket_def
        escape_codes)
  have "YELLOW \<notin> set (map fst [(BLUE, 0::int), (RED, 0), (GREEN, 0), (MAGENTA, 0), (CYAN, 0), (RESET, 2)])"
    by (simp add: escape_codes)
  then show "set (map fst [(BLUE, 0::int), (RED, 0), (GREEN, 0), (MAGENTA, 0), (CYAN, 0), (RESET, 2)]) \<noteq>
     {RED, GREEN, YELLOW, BLUE, MAGENTA, CYAN, RESET}"
    by blast
qed

text \<open>
  C7, amended. The dictionary handed to \<open>build_color_stats\<close> has exactly the six keys of
  the literal, in its order: blue, red, green, magenta, cyan, reset. Yellow is no key.
  The reset entry is the catch-all: it counts the characters that are neither one of
  \<open>3 & = + * # ?\<close> nor the space.
\<close>

theorem histogram_keys:
  "\<exists>colored_text colors_used.
     scan_chars ([], colors_used_init) s = Inr (colored_text, colors_used) \<and>
     map fst colors_used = [BLUE, RED, GREEN, MAGENTA, CYAN, RESET] \<and>
     YELLOW \<notin> set (map fst colors_used) \<and>
     map_of colors_used RESET =
       Some (int (length (filter (\<lambda>c. c \<notin> set (str ''3&=+*#? '')) s)))"
proof -
  let ?d = "map (\<lambda>color. (color, color_count color s)) [BLUE, RED, GREEN, MAGENTA, CYAN, RESET]"
  have 1: "scan_chars ([], colors_used_init) s = Inr (concat (map wrapped_char s), ?d)"
    by (rule scan_chars_init)
  have 2: "map fst ?d = [BLUE, RED, GREEN, MAGENTA, CYAN, RESET]" by simp
  have 3: "YELLOW \<notin> set (map fst ?d)" by (simp add: escape_codes)
  have "(bucket c = Some RESET) = (c \<notin> set (str ''3&=+*#? ''))" for c
    by (simp add: bucket_def char_color_def str_def ord_def escape_codes)
  then have 4: "map_of ?d RESET = Some (int (length (filter (\<lambda>c. c \<notin> set (str ''3&=+*#? '')) s)))"
    by (simp add: color_count_def escape_codes)
  show ?thesis
    by (intro exI [of _ "concat (map wrapped_char s)"] exI [of _ ?d] conjI 1 2 3 4)
qed

text \<open>
  C6, as stated, fails. An enabled scan of 29 letters \<open>a\<close> followed by 21 digits \<open>3\<close>
  hands over the histogram blue 21, reset 29, the rest 0. The stored report starts with
  the blue bar, has no yellow line, and its reset bar has 28 blocks; the report of the
  claim starts with the red line, has a yellow one, and gives the reset bar
  \<open>floor(29 / 50 * 50) = 29\<close> blocks.
\<close>

theorem distribution_report_counterexample:
  "scan_chars ([], colors_used_init) (replicate 29 (ord CHR ''a'') @ replicate 21 (ord CHR ''3'')) =
     Inr (replicate 29 (ord CHR ''a'') @ concat (replicate 21 (BLUE @ str ''3'' @ RESET)),
          [(BLUE, 21), (RED, 0), (GREEN, 0), (MAGENTA, 0), (CYAN, 0), (RESET, 29)]) \<and>
   color_stats (snd (ascii_color_chars (enable init)
       (replicate 29 (ord CHR ''a'') @ replicate 21 (ord CHR ''3'')))) =
     stats_header @ BLUE @ ord CHR ''\<newline>'' # replicate 21 block @ RESET
       @ RED @ ord CHR ''\<newline>'' # RESET @ GREEN @ ord CHR ''\<newline>'' # RESET
       @ MAGENTA @ ord CHR ''\<newline>'' # RESET @ CYAN @ ord CHR ''\<newline>'' # RESET
       @ RESET @ ord CHR ''\<newline>'' # replicate 28 block @ RESET \<and>
   spec_report [(BLUE, 21), (RED, 0), (GREEN, 0), (MAGENTA, 0), (CYAN, 0), (RESET, 29)] =
     stats_header @ RED @ ord CHR ''\<newline>'' # RESET @ GREEN @ ord CHR ''\<newline>'' # RESET
       @ YELLOW @ ord CHR ''\<newline>'' # RESET
       @ BLUE @ ord CHR ''\<newline>'' # replicate 21 block @ RESET
       @ MAGENTA @ ord CHR ''\<newline>'' # RESET @ CYAN @ ord CHR ''\<newline>'' # RESET
       @ RESET @ ord CHR ''\<newline>'' # replicate 29 block @ RESET \<and>
   color_stats (snd (ascii_color_chars (enable init)
       (replicate 29 (ord CHR ''a'') @ replicate 21 (ord CHR ''3'')))) \<noteq>
     spec_report [(BLUE, 21), (RED, 0), (GREEN, 0), (MAGENTA, 0), (CYAN, 0), (RESET, 29)]"
proof -
  let ?s = "replicate 29 (ord CHR ''a'') @ replicate 21 (ord CHR ''3'')"
  let ?h = "[(BLUE, 21), (RED, 0), (GREEN, 0), (MAGENTA, 0), (CYAN, 0), (RESET, 29::int)]"
  have counts:
    "color_count BLUE ?s = 21" "color_count RED ?s = 0" "color_count GREEN ?s = 0"
    "color_count MAGENTA ?s = 0" "color_count CYAN ?s = 0" "color_count RESET ?s = 29"
    "length (filter (\<lambda>c. c \<noteq> ord CHR '' '') ?s) = 50"
    by (simp_all add: color_count_def bucket_def char_color_def ord_def escape_codes)
  have wrapped: "wrapped_char (ord CHR ''a'') = [ord CHR ''a'']"
    "wrapped_char (ord CHR ''3'') = BLUE @ str ''3'' @ RESET"
    by (simp_all add: wrapped_char_def char_color_def ord_def str_def)
  have scan: "scan_chars ([], colors_used_init) ?s =
      Inr (replicate 29 (ord CHR ''a'') @ concat (replicate 21 (BLUE @ str ''3'' @ RESET)), ?h)"
    unfolding scan_chars_init
    by (simp add: counts wrapped map_replicate_const)
  have e: "enabled (enable init)" by (simp add: enable_def)
  have c: "\<exists>c\<in>set ?s. c \<noteq> ord CHR '' ''" by (simp add: ord_def)
  have code: "color_stats (snd (ascii_color_chars (enable init) ?s)) =
     stats_header @ BLUE @ ord CHR ''\<newline>'' # replicate 21 block @ RESET
       @ RED @ ord CHR ''\<newline>'' # RESET @ GREEN @ ord CHR ''\<newline>'' # RESET
       @ MAGENTA @ ord CHR ''\<newline>'' # RESET @ CYAN @ ord CHR ''\<newline>'' # RESET
       @ RESET @ ord CHR ''\<newline>'' # replicate 28 block @ RESET"
    unfolding ascii_color_chars_enabled [OF e c] counts
    by (simp add: counts bar_length_29_50 bar_length_21_50 bar_length_zero)
  have spec: "spec_report ?h =
     stats_header @ RED @ ord CHR ''\<newline>'' # RESET @ GREEN @ ord CHR ''\<newline>'' # RESET
       @ YELLOW @ ord CHR ''\<newline>'' # RESET
       @ BLUE @ ord CHR ''\<newline>'' # replicate 21 block @ RESET
       @ MAGENTA @ ord CHR ''\<newline>'' # RESET @ CYAN @ ord CHR ''\<newline>'' # RESET
       @ RESET @ ord CHR ''\<newline>'' # replicate 29 block @ RESET"
    by (simp add: spec_report_def Color_enumeration_def escape_codes)
  have "color_stats (snd (ascii_color_chars (enable init) ?s)) \<noteq> spec_report ?h"
    unfolding code spec by (simp add: escape_codes)
  with scan code spec show ?thesis by (intro conjI)
qed

text \<open>
  C6, amended. For a histogram with distinct keys, counts that are not negative and a
  positive total, \<open>build_color_stats\<close> stores the header followed, for each key in the
  order of the dictionary, by the colour, a line break, the bar and the reset sequence;
  the bar has \<open>int(count / total * 50)\<close> blocks, the quotient and the product each
  rounded to binary64, which is a number from 0 to 50. After an enabled scan of a text
  with a character other than the space the keys are blue, red, green, magenta, cyan,
  reset, in this order, the total is the number of characters other than the space,
  and the report replaces whatever was stored before.
\<close>

theorem distribution_report:
  "(distinct (map fst colors_used) \<and> (\<forall>v\<in>set (map snd colors_used). 0 \<le> v) \<and>
      0 < sum_list (map snd colors_used) \<longrightarrow>
      build_color_stats self colors_used =
        (Inr (), self\<lparr>color_stats := stats_header @
           concat (map (\<lambda>(color, count). color @ ord CHR ''\<newline>'' #
             replicate (nat (projr (bar_length count (sum_list (map snd colors_used))))) block
               @ RESET) colors_used)\<rparr>) \<and>
      (\<forall>(color, count)\<in>set colors_used.
         \<exists>n. bar_length count (sum_list (map snd colors_used)) = Inr n \<and> 0 \<le> n \<and> n \<le> 50)) \<and>
   (enabled self \<and> (\<exists>c\<in>set s. c \<noteq> ord CHR '' '') \<longrightarrow>
      snd (ascii_color_chars self s) =
        self\<lparr>color_stats := stats_header @
           concat (map (\<lambda>color. color @ ord CHR ''\<newline>'' #
             replicate (nat (projr (bar_length (color_count color s)
               (int (length (filter (\<lambda>c. c \<noteq> ord CHR '' '') s)))))) block @ RESET)
             [BLUE, RED, GREEN, MAGENTA, CYAN, RESET])\<rparr> \<and>
      color_stats (snd (ascii_color_chars (self\<lparr>color_stats := old\<rparr>) s)) =
        color_stats (snd (ascii_color_chars self s)))"
proof (intro conjI impI)
  assume a: "distinct (map fst colors_used) \<and> (\<forall>v\<in>set (map snd colors_used). 0 \<le> v) \<and>
      0 < sum_list (map snd colors_used)"
  then show "build_color_stats self colors_used =
        (Inr (), self\<lparr>color_stats := stats_header @
           concat (map (\<lambda>(color, count). color @ ord CHR ''\<newline>'' #
             replicate (nat (projr (bar_length count (sum_list (map snd colors_used))))) block
               @ RESET) colors_used)\<rparr>)"
    by (intro build_color_stats_closed) simp_all
  show "\<forall>(color, count)\<in>set colors_used.
         \<exists>n. bar_length count (sum_list (map snd colors_used)) = Inr n \<and> 0 \<le> n \<and> n \<le> 50"
  proof (clarify)
    fix color count assume m: "(color, count) \<in> set colors_used"
    from a have nn: "\<forall>v\<in>set (map snd colors_used). 0 \<le> v" by simp
    from m have c: "count \<in> set (map snd colors_used)" by force
    from nn c have "0 \<le> count" by blast
    moreover from member_le_sum_list [OF nn c] have "count \<le> sum_list (map snd colors_used)" .
    ultimately show "\<exists>n. bar_length count (sum_list (map snd colors_used)) = Inr n \<and> 0 \<le> n \<and> n \<le> 50"
      using a by (intro bar_length_ok) simp_all
  qed
next
  assume b: "enabled self \<and> (\<exists>c\<in>set s. c \<noteq> ord CHR '' '')"
  then have e: "enabled self" and c: "\<exists>c\<in>set s. c \<noteq> ord CHR '' ''" by simp_all
  show "snd (ascii_color_chars self s) =
        self\<lparr>color_stats := stats_header @
           concat (map (\<lambda>color. color @ ord CHR ''\<newline>'' #
             replicate (nat (projr (bar_length (color_count color s)
               (int (length (filter (\<lambda>c. c \<noteq> ord CHR '' '') s)))))) block @ RESET)
             [BLUE, RED, GREEN, MAGENTA, CYAN, RESET])\<rparr>"
    unfolding ascii_color_chars_enabled [OF e c] by simp
  from e have e': "enabled (self\<lparr>color_stats := old\<rparr>)" by simp
  show "color_stats (snd (ascii_color_chars (self\<lparr>color_stats := old\<rparr>) s)) =
        color_stats (snd (ascii_color_chars self s))"
    unfolding ascii_color_chars_enabled [OF e c] ascii_color_chars_enabled [OF e' c] by simp
qed

theorem distribution_report_witness:
  "distinct (map fst [(BLUE, 0::int), (RED, 0), (GREEN, 0), (MAGENTA, 0), (CYAN, 0), (RESET, 2)]) \<and>
   0 < sum_list (map snd [(BLUE, 0::int), (RED, 0), (GREEN, 0), (MAGENTA, 0), (CYAN, 0), (RESET, 2)]) \<and>
   build_color_stats (enable init) [(BLUE, 0), (RED, 0), (GREEN, 0), (MAGENTA, 0), (CYAN, 0), (RESET, 2)] =
     (Inr (), (enable init)\<lparr>color_stats := stats_header
        @ BLUE @ ord CHR ''\<newline>'' # RESET @ RED @ ord CHR ''\<newline>'' # RESET
        @ GREEN @ ord CHR ''\<newline>'' # RESET @ MAGENTA @ ord CHR ''\<newline>'' # RESET
        @ CYAN @ ord CHR ''\<newline>'' # RESET
        @ RESET @ ord CHR ''\<newline>'' # replicate 50 block @ RESET\<rparr>) \<and>
   enabled (enable init) \<and> (\<exists>c\<in>set (str ''ab''). c \<noteq> ord CHR '' '') \<and>
   snd (ascii_color_chars (enable init) (str ''ab'')) =
     (enable init)\<lparr>color_stats := stats_header
        @ BLUE @ ord CHR ''\<newline>'' # RESET @ RED @ ord CHR ''\<newline>'' # RESET
        @ GREEN @ ord CHR ''\<newline>'' # RESET @ MAGENTA @ ord CHR ''\<newline>'' # RESET
        @ CYAN @ ord CHR ''\<newline>'' # RESET
        @ RESET @ ord CHR ''\<newline>'' # replicate 50 block @ RESET\<rparr>"
proof -
  let ?d = "[(BLUE, 0::int), (RED, 0), (GREEN, 0), (MAGENTA, 0), (CYAN, 0), (RESET, 2)]"
  have h1: "distinct (map fst ?d)" by (simp add: escape_codes)
  have h2: "\<forall>v\<in>set (map snd ?d). 0 \<le> v" by simp
  have h3: "0 < sum_list (map snd ?d)" by simp
  have h4: "enabled (enable init)" by (simp add: enable_def)
  have h5: "\<exists>c\<in>set (str ''ab''). c \<noteq> ord CHR '' ''" by (simp add: str_def ord_def)
  have counts:
    "color_count BLUE (str ''ab'') = 0" "color_count RED (str ''ab'') = 0"
    "color_count GREEN (str ''ab'') = 0" "color_count MAGENTA (str ''ab'') = 0"
    "color_count CYAN (str ''ab'') = 0" "color_count RESET (str ''ab'') = 2"
    "length (filter (\<lambda>c. c \<noteq> ord CHR '' '') (str ''ab'')) = 2"
    by (simp_all add: color_count_def bucket_def char_color_def str_def ord_def escape_codes)
  note r = distribution_report [where colors_used = ?d and self = "enable init" and s = "str ''ab''"]
  from r h1 h2 h3 have 1: "build_color_stats (enable init) ?d =
     (Inr (), (enable init)\<lparr>color_stats := stats_header @
           concat (map (\<lambda>(color, count). color @ ord CHR ''\<newline>'' #
             replicate (nat (projr (bar_length count (sum_list (map snd ?d))))) block
               @ RESET) ?d)\<rparr>)" by blast
  from r h4 h5 have 2: "snd (ascii_color_chars (enable init) (str ''ab'')) =
        (enable init)\<lparr>color_stats := stats_header @
           concat (map (\<lambda>color. color @ ord CHR ''\<newline>'' #
             replicate (nat (projr (bar_length (color_count color (str ''ab''))
               (int (length (filter (\<lambda>c. c \<noteq> ord CHR '' '') (str ''ab''))))))) block @ RESET)
             [BLUE, RED, GREEN, MAGENTA, CYAN, RESET])\<rparr>" by blast
  have 1: "build_color_stats (enable init) ?d =
     (Inr (), (enable init)\<lparr>color_stats := stats_header
        @ BLUE @ ord CHR ''\<newline>'' # RESET @ RED @ ord CHR ''\<newline>'' # RESET
        @ GREEN @ ord CHR ''\<newline>'' # RESET @ MAGENTA @ ord CHR ''\<newline>'' # RESET
        @ CYAN @ ord CHR ''\<newline>'' # RESET
        @ RESET @ ord CHR ''\<newline>'' # replicate 50 block @ RESET\<rparr>)"
    unfolding 1 by (simp add: bar_length_zero bar_length_all)
  have 2: "snd (ascii_color_chars (enable init) (str ''ab'')) =
     (enable init)\<lparr>color_stats := stats_header
        @ BLUE @ ord CHR ''\<newline>'' # RESET @ RED @ ord CHR ''\<newline>'' # RESET
        @ GREEN @ ord CHR ''\<newline>'' # RESET @ MAGENTA @ ord CHR ''\<newline>'' # RESET
        @ CYAN @ ord CHR ''\<newline>'' # RESET
        @ RESET @ ord CHR ''\<newline>'' # replicate 50 block @ RESET\<rparr>"
    unfolding 2 counts by (simp add: counts bar_length_zero bar_length_all)
  from h1 h3 h4 h5 1 2 show ?thesis by (intro conjI)
qed

text \<open>
  C2, as stated, fails: an enabled scan returns \<open>ok\<close> followed by \<open>ESC[0m\<close> as it is (no
  character of it has a colour), and stripping the escape sequences of that output
  leaves \<open>ok\<close>, which is not the input.
\<close>

theorem round_trip_counterexample:
  "fst (ascii_color_chars (enable init) (str ''ok'' @ RESET)) = Inr (str ''ok'' @ RESET) \<and>
   strip_ansi (str ''ok'' @ RESET) = str ''ok'' \<and>
   str ''ok'' \<noteq> str ''ok'' @ RESET"
proof -
  have e: "enabled (enable init)" by (simp add: enable_def)
  have c: "\<exists>c\<in>set (str ''ok'' @ RESET). c \<noteq> ord CHR '' ''" by (simp add: str_def ord_def)
  have "fst (ascii_color_chars (enable init) (str ''ok'' @ RESET)) = Inr (str ''ok'' @ RESET)"
    unfolding ascii_color_chars_enabled [OF e c]
    by (simp add: str_def ord_def wrapped_char_def char_color_def escape_codes)
  moreover have "strip_ansi (str ''ok'' @ RESET) = str ''ok''"
    by (simp add: str_def ord_def leading_escape_unfold escape_codes)
  moreover have "str ''ok'' \<noteq> str ''ok'' @ RESET"
    by (simp add: escape_codes)
  ultimately show ?thesis by (intro conjI)
qed

text \<open>
  C2, amended. When the input has a character other than the space and does not
  contain the reset sequence \<open>ESC[0m\<close>, an enabled \<open>ascii_color_chars\<close> returns a string,
  and stripping the escape sequences from it gives the input back.
\<close>

theorem round_trip:
  assumes "enabled self" and "\<exists>c\<in>set s. c \<noteq> ord CHR '' ''" and "\<not> contains RESET s"
  shows "\<exists>colored_text self'.
     ascii_color_chars self s = (Inr colored_text, self') \<and> strip_ansi colored_text = s"
  using ascii_color_chars_enabled [OF assms(1,2)] strip_ansi_wrapped [OF assms(3)] by simp

theorem round_trip_witness:
  "enabled (enable init) \<and> (\<exists>c\<in>set (str ''3&=+*#?''). c \<noteq> ord CHR '' '') \<and>
   \<not> contains RESET (str ''3&=+*#?'') \<and>
   (\<exists>colored_text self'.
      ascii_color_chars (enable init) (str ''3&=+*#?'') = (Inr colored_text, self') \<and>
      strip_ansi colored_text = str ''3&=+*#?'')"
proof -
  have e: "enabled (enable init)" by (simp add: enable_def)
  have c: "\<exists>c\<in>set (str ''3&=+*#?''). c \<noteq> ord CHR '' ''" by (simp add: str_def ord_def)
  have r: "\<not> contains RESET (str ''3&=+*#?'')" by (simp add: str_def ord_def escape_codes)
  from e c r round_trip [OF e c r] show ?thesis by (intro conjI)
qed

end
